theory Spec2Isabelle
  imports Complex_Main "HOL-Library.Signed_Division"
begin

section \<open>C arithmetic shared by the two programs\<close>

text \<open>
  Both programs compute with C \<^verbatim>\<open>int\<close> and \<^verbatim>\<open>double\<close>. An \<^verbatim>\<open>int\<close> is modelled as an
  unbounded \<^typ>\<open>int\<close> (the grid sizes are far from the word size), and C's integer
  division truncates towards zero. A \<^verbatim>\<open>double\<close> is modelled as an exact \<^typ>\<open>real\<close>.
  Assigning a \<^verbatim>\<open>double\<close> to an \<^verbatim>\<open>int\<close> object discards the fractional part.
  Rounding of \<^verbatim>\<open>double\<close> operations and values beyond the range of \<^verbatim>\<open>int\<close> are not
  modelled; the evaluations below stay far from both.
\<close>

definition c_div :: "int \<Rightarrow> int \<Rightarrow> int" where
  "c_div a b = a sdiv b"

definition double_to_int :: "real \<Rightarrow> int" where
  "double_to_int r = (if 0 \<le> r then \<lfloor>r\<rfloor> else \<lceil>r\<rceil>)"

section \<open>The wave solver: \<^verbatim>\<open>src/wavetoy_mpi_comm_basic.c\<close>\<close>

subsection \<open>Compile-time and launch parameters\<close>

text \<open>
  \<^verbatim>\<open>nx\<close>, \<^verbatim>\<open>ny\<close> and \<^verbatim>\<open>nsteps\<close> are the \<^verbatim>\<open>#define\<close>s of the file, \<^verbatim>\<open>nprocs\<close> is what
  \<^verbatim>\<open>MPI_Comm_size\<close> returns. The field blocks are declared \<^verbatim>\<open>int *\<close> but are sent and
  received as \<^verbatim>\<open>MPI_DOUBLE\<close>; \<open>cells_per_double\<close> is \<^verbatim>\<open>sizeof(double)/sizeof(int)\<close>, the
  number of cells of a block that one transferred \<^verbatim>\<open>MPI_DOUBLE\<close> covers (2 on the usual
  ABIs; 1 describes a platform where both types have the same size).
\<close>

record config =
  nx :: int
  ny :: int
  nsteps :: int
  nprocs :: int
  cells_per_double :: int

subsection \<open>Domain decomposition (lines 38 to 75)\<close>

definition nxprocs :: "config \<Rightarrow> int" where
  "nxprocs c = nprocs c"

definition nyprocs :: "config \<Rightarrow> int" where
  "nyprocs c = 1"

definition nxnom :: "config \<Rightarrow> int" where
  "nxnom c = c_div (nx c) (nxprocs c)"

definition nynom :: "config \<Rightarrow> int" where
  "nynom c = c_div (ny c) (nyprocs c)"

definition gixs :: "config \<Rightarrow> int \<Rightarrow> int" where
  "gixs c worker = worker * nxnom c + 1"

definition gixe :: "config \<Rightarrow> int \<Rightarrow> int" where
  "gixe c worker = gixs c worker + nxnom c - 1"

definition giys :: "int" where
  "giys = 1"

definition giye :: "config \<Rightarrow> int" where
  "giye c = ny c"

definition ixs :: "int" where
  "ixs = 0"

definition ixe :: "config \<Rightarrow> int" where
  "ixe c = nxnom c + 1"

definition iys :: "int" where
  "iys = 0"

definition iye :: "config \<Rightarrow> int" where
  "iye c = nynom c + 1"

definition ixem :: "config \<Rightarrow> int" where
  "ixem c = ixe c - 1"

definition iyem :: "config \<Rightarrow> int" where
  "iyem c = iye c - 1"

definition gnx :: "config \<Rightarrow> int" where
  "gnx c = ixe c - ixs + 1"

definition gny :: "config \<Rightarrow> int" where
  "gny c = iye c - iys + 1"

definition gnxgny :: "config \<Rightarrow> int" where
  "gnxgny c = gnx c * gny c"

text \<open>The grid of the spec's small scenario, launched on two ranks.\<close>

definition grid4 :: "int \<Rightarrow> int \<Rightarrow> config" where
  "grid4 steps cpd =
     \<lparr>nx = 4, ny = 4, nsteps = steps, nprocs = 2, cells_per_double = cpd\<rparr>"

subsection \<open>The field blocks and their cells (lines 20, 21 and 77 to 90)\<close>

text \<open>
  \<^verbatim>\<open>uold1D\<close>, \<^verbatim>\<open>ucur1D\<close> and \<^verbatim>\<open>unew1D\<close> are declared \<^verbatim>\<open>int *\<close>: a block is a sequence of
  \<^verbatim>\<open>int\<close> cells, addressed by its cell offset. \<^verbatim>\<open>malloc\<close> does not initialise a block, so
  the contents a run starts from are a parameter of the model. Each block is obtained
  with \<^verbatim>\<open>malloc(gnxgny*sizeof(double*))\<close>, which is room for more than \<open>gnxgny\<close> cells of
  type \<^verbatim>\<open>int\<close>; offsets are therefore not cut off at \<open>gnxgny\<close>.
  The setup loop stores \<^verbatim>\<open>&uold1D[i*gny]\<close> in \<^verbatim>\<open>uold[i]\<close>, so \<^verbatim>\<open>uold[i][j]\<close> is the cell at
  offset \<open>i * gny + j\<close>.
\<close>

type_synonym block = "int \<Rightarrow> int"

record rank_mem =
  uold :: block
  ucur :: block
  unew :: block

definition cell :: "config \<Rightarrow> int \<Rightarrow> int \<Rightarrow> int" where
  "cell c i j = i * gny c + j"

text \<open>Reading \<^verbatim>\<open>u[i][j]\<close>, and the assignment \<^verbatim>\<open>u[i][j] = v\<close> of a \<^verbatim>\<open>double\<close> value.\<close>

definition cell_get :: "config \<Rightarrow> block \<Rightarrow> int \<Rightarrow> int \<Rightarrow> int" where
  "cell_get c u i j = u (cell c i j)"

definition cell_set :: "config \<Rightarrow> block \<Rightarrow> int \<Rightarrow> int \<Rightarrow> real \<Rightarrow> block" where
  "cell_set c u i j v = u(cell c i j := double_to_int v)"

text \<open>
  The row tables \<^verbatim>\<open>uold\<close>, \<^verbatim>\<open>ucur\<close>, \<^verbatim>\<open>unew\<close> are each \<^verbatim>\<open>malloc(gnx*sizeof(double*))\<close>:
  \<open>gnx\<close> pointer slots, numbered \<open>0..gnx-1\<close>. A table is modelled by the cell offset
  each slot points to; a store outside the slots is a fault. The loop is
  \<^verbatim>\<open>for (i=0; i<=gnx; i++)\<close>, its body stores into the three tables in turn.
\<close>

datatype fault = OutOfBounds int

type_synonym row_table = "int \<Rightarrow> int"

definition table_store :: "config \<Rightarrow> row_table \<Rightarrow> int \<Rightarrow> int \<Rightarrow> fault + row_table" where
  "table_store c t i v =
     (if 0 \<le> i \<and> i < gnx c then Inr (t(i := v)) else Inl (OutOfBounds i))"

definition setup_body ::
  "config \<Rightarrow> int \<Rightarrow> row_table \<times> row_table \<times> row_table \<Rightarrow>
   fault + row_table \<times> row_table \<times> row_table" where
  "setup_body c i ts =
     (case ts of (to, tc, tn) \<Rightarrow>
        (case table_store c to i (i * gny c) of
           Inl e \<Rightarrow> Inl e
         | Inr to' \<Rightarrow>
             (case table_store c tc i (i * gny c) of
                Inl e \<Rightarrow> Inl e
              | Inr tc' \<Rightarrow>
                  (case table_store c tn i (i * gny c) of
                     Inl e \<Rightarrow> Inl e
                   | Inr tn' \<Rightarrow> Inr (to', tc', tn')))))"

fun setup_loop ::
  "config \<Rightarrow> int list \<Rightarrow> row_table \<times> row_table \<times> row_table \<Rightarrow>
   fault + row_table \<times> row_table \<times> row_table" where
  "setup_loop c [] ts = Inr ts"
| "setup_loop c (i # is) ts =
     (case setup_body c i ts of Inl e \<Rightarrow> Inl e | Inr ts' \<Rightarrow> setup_loop c is ts')"

definition setup_tables ::
  "config \<Rightarrow> row_table \<times> row_table \<times> row_table \<Rightarrow>
   fault + row_table \<times> row_table \<times> row_table" where
  "setup_tables c ts = setup_loop c [0..gnx c] ts"

subsection \<open>Physical quantities (lines 63 to 70)\<close>

definition wave_speed :: real where
  "wave_speed = 1"

definition dt :: "config \<Rightarrow> real" where
  "dt c = 1 / real_of_int (nsteps c - 1)"

definition dx :: "config \<Rightarrow> real" where
  "dx c = 2 / real_of_int (nx c + 1)"

definition dy :: "config \<Rightarrow> real" where
  "dy c = 2 / real_of_int (ny c + 1)"

definition csq :: real where
  "csq = wave_speed * wave_speed"

definition dtdx :: "config \<Rightarrow> real" where
  "dtdx c = dt c / dx c"

definition dtdxsq :: "config \<Rightarrow> real" where
  "dtdxsq c = dtdx c * dtdx c"

subsection \<open>Initialisation of \<^verbatim>\<open>uold\<close> (lines 92 to 106)\<close>

definition xcoord :: "config \<Rightarrow> int \<Rightarrow> real" where
  "xcoord c i = - real_of_int (1 + nx c + 2 * i) / real_of_int (1 + nx c)"

definition ycoord :: "config \<Rightarrow> int \<Rightarrow> real" where
  "ycoord c j = - real_of_int (1 + ny c + 2 * j) / real_of_int (1 + ny c)"

definition gaussian :: "real \<Rightarrow> real \<Rightarrow> real" where
  "gaussian x y = exp (- x * x / 0.01 - y * y / 0.01)"

definition init_point :: "config \<Rightarrow> int \<Rightarrow> int \<Rightarrow> int \<Rightarrow> block \<Rightarrow> block" where
  "init_point c worker i j u =
     (let x = xcoord c i; y = ycoord c j; v = gaussian x y
      in if gixs c worker \<le> i \<and> i \<le> gixe c worker
         then cell_set c u (i - gixs c worker + 1) j v
         else u)"

definition init_uold :: "config \<Rightarrow> int \<Rightarrow> block \<Rightarrow> block" where
  "init_uold c worker u =
     fold (\<lambda>i. fold (\<lambda>j. init_point c worker i j) [1..ny c]) [1..nx c] u"

subsection \<open>The first-order start (lines 118 to 125)\<close>

definition boot_value :: "config \<Rightarrow> block \<Rightarrow> int \<Rightarrow> int \<Rightarrow> real" where
  "boot_value c uo i j =
     (let dudt = 0
      in real_of_int (cell_get c uo i j) - 2 * dt c * dudt
         + (1 / 2) * csq * dtdxsq c *
           (real_of_int (cell_get c uo (i + 1) j) - 2 * real_of_int (cell_get c uo i j)
            + real_of_int (cell_get c uo (i - 1) j)
            + real_of_int (cell_get c uo i (j + 1)) - 2 * real_of_int (cell_get c uo i j)
            + real_of_int (cell_get c uo i (j - 1))))"

definition bootstrap :: "config \<Rightarrow> rank_mem \<Rightarrow> rank_mem" where
  "bootstrap c m =
     m\<lparr>ucur :=
         fold (\<lambda>i. fold (\<lambda>j uc. cell_set c uc i j (boot_value c (uold m) i j)) [1..nynom c])
           [1..nxnom c] (ucur m)\<rparr>"

subsection \<open>Dirichlet boundary (lines 133 to 190)\<close>

text \<open>
  The cells one boundary application sets to \<^verbatim>\<open>0.0\<close>, in the order of the source; the
  same cells are written in \<^verbatim>\<open>uold\<close> and in \<^verbatim>\<open>ucur\<close>.
\<close>

definition bc_cells :: "config \<Rightarrow> int \<Rightarrow> int list" where
  "bc_cells c worker =
     (if worker = 0
      then [cell c 0 0, cell c 0 (iye c), cell c (ixe c) 0, cell c (ixe c) (iye c)]
           @ map (\<lambda>j. cell c 0 j) [1..iyem c]
           @ map (\<lambda>i. cell c i 0) [1..ixem c]
           @ map (\<lambda>i. cell c i (iye c)) [1..ixem c]
      else [cell c (ixe c) 0, cell c (ixe c) (iye c), cell c 0 0, cell c 0 (iye c)]
           @ map (\<lambda>j. cell c (ixe c) j) [1..iyem c]
           @ map (\<lambda>i. cell c i 0) [1..ixem c]
           @ map (\<lambda>i. cell c i (iye c)) [1..ixem c])"

definition zero_cells :: "int list \<Rightarrow> block \<Rightarrow> block" where
  "zero_cells ks u = fold (\<lambda>k u'. u'(k := double_to_int 0)) ks u"

definition apply_bc :: "config \<Rightarrow> int \<Rightarrow> rank_mem \<Rightarrow> rank_mem" where
  "apply_bc c worker m =
     m\<lparr>uold := zero_cells (bc_cells c worker) (uold m),
       ucur := zero_cells (bc_cells c worker) (ucur m)\<rparr>"

subsection \<open>The time step and the array update (lines 205 to 220)\<close>

definition step_value :: "config \<Rightarrow> block \<Rightarrow> block \<Rightarrow> int \<Rightarrow> int \<Rightarrow> real" where
  "step_value c uo uc i j =
     real_of_int (2 * cell_get c uc i j + cell_get c uo i j)
     + csq * dtdxsq c *
       (real_of_int (cell_get c uc (i + 1) j) - 2 * real_of_int (cell_get c uc i j)
        + real_of_int (cell_get c uc (i - 1) j)
        + real_of_int (cell_get c uc i (j + 1)) - 2 * real_of_int (cell_get c uc i j)
        + real_of_int (cell_get c uc i (j - 1)))"

definition timestep :: "config \<Rightarrow> rank_mem \<Rightarrow> rank_mem" where
  "timestep c m =
     m\<lparr>unew :=
         fold (\<lambda>i. fold (\<lambda>j un. cell_set c un i j (step_value c (uold m) (ucur m) i j))
                 [1..ny c])
           [1..nxnom c] (unew m)\<rparr>"

definition update_cell :: "config \<Rightarrow> int \<Rightarrow> int \<Rightarrow> rank_mem \<Rightarrow> rank_mem" where
  "update_cell c i j m =
     (let m' = m\<lparr>uold := (uold m)(cell c i j := cell_get c (ucur m) i j)\<rparr>
      in m'\<lparr>ucur := (ucur m')(cell c i j := cell_get c (unew m') i j)\<rparr>)"

definition update_arrays :: "config \<Rightarrow> rank_mem \<Rightarrow> rank_mem" where
  "update_arrays c m = fold (\<lambda>i. fold (\<lambda>j. update_cell c i j) [1..ny c]) [1..nxnom c] m"

subsection \<open>Ghost exchange (lines 110 to 116 and 192 to 203)\<close>

text \<open>
  The calls each rank issues, in program order. A call names the block, the offset of
  the first cell (\<^verbatim>\<open>&u[i][0]\<close> is the cell of row 0 of column \<open>i\<close>), the count, the peer
  rank and the tag.
\<close>

datatype buffer = Uold | Ucur

datatype mpi_call =
  Send buffer int int int int
| Recv buffer int int int int

definition exchange_calls :: "config \<Rightarrow> int \<Rightarrow> buffer \<Rightarrow> mpi_call list" where
  "exchange_calls c worker b =
     (if worker = 0
      then [Send b (cell c (ixem c) 0) (ny c) 1 0, Recv b (cell c (ixe c) 0) (ny c) 1 1]
      else [Recv b (cell c 0 0) (ny c) 0 0, Send b (cell c 1 0) (ny c) 0 1])"

definition bootstrap_calls :: "config \<Rightarrow> int \<Rightarrow> mpi_call list" where
  "bootstrap_calls c worker = exchange_calls c worker Uold"

definition step_calls :: "config \<Rightarrow> int \<Rightarrow> mpi_call list" where
  "step_calls c worker = exchange_calls c worker Uold @ exchange_calls c worker Ucur"

text \<open>
  A message of \<open>count\<close> elements of type \<^verbatim>\<open>MPI_DOUBLE\<close> is the run of
  \<open>cells_per_double * count\<close> cells that starts at the given cell; the receiver stores
  it from its own first cell on.
\<close>

definition block_of :: "buffer \<Rightarrow> rank_mem \<Rightarrow> block" where
  "block_of b m = (case b of Uold \<Rightarrow> uold m | Ucur \<Rightarrow> ucur m)"

definition put_block :: "buffer \<Rightarrow> block \<Rightarrow> rank_mem \<Rightarrow> rank_mem" where
  "put_block b u m = (case b of Uold \<Rightarrow> m\<lparr>uold := u\<rparr> | Ucur \<Rightarrow> m\<lparr>ucur := u\<rparr>)"

definition payload :: "config \<Rightarrow> block \<Rightarrow> int \<Rightarrow> int \<Rightarrow> int list" where
  "payload c u a n = map u [a..a + cells_per_double c * n - 1]"

definition deliver :: "block \<Rightarrow> int \<Rightarrow> int list \<Rightarrow> block" where
  "deliver u a msg =
     (\<lambda>k. if a \<le> k \<and> k < a + int (length msg) then msg ! nat (k - a) else u k)"

text \<open>
  The transport is synchronous and blocking: a send and a receive complete together,
  when the call at the head of one rank is a send to the other rank and the call at the
  head of the other rank is a receive from the first with the same tag (and room for the
  message). With two ranks, any other pair of heads leaves both ranks blocked.
\<close>

fun rendezvous ::
  "config \<Rightarrow> mpi_call \<Rightarrow> mpi_call \<Rightarrow> rank_mem \<times> rank_mem \<Rightarrow> (rank_mem \<times> rank_mem) option" where
  "rendezvous c (Send b a n dst tg) (Recv b' a' n' src tg') (m0, m1) =
     (if dst = 1 \<and> src = 0 \<and> tg = tg' \<and> n \<le> n'
      then Some (m0, put_block b' (deliver (block_of b' m1) a' (payload c (block_of b m0) a n)) m1)
      else None)"
| "rendezvous c (Recv b a n src tg) (Send b' a' n' dst tg') (m0, m1) =
     (if dst = 0 \<and> src = 1 \<and> tg = tg' \<and> n' \<le> n
      then Some (put_block b (deliver (block_of b m0) a (payload c (block_of b' m1) a' n')) m0, m1)
      else None)"
| "rendezvous c (Send b a n dst tg) (Send b' a' n' dst' tg') s = None"
| "rendezvous c (Recv b a n src tg) (Recv b' a' n' src' tg') s = None"

fun sync_run ::
  "config \<Rightarrow> mpi_call list \<Rightarrow> mpi_call list \<Rightarrow> rank_mem \<times> rank_mem \<Rightarrow>
   (rank_mem \<times> rank_mem) option" where
  "sync_run c [] [] s = Some s"
| "sync_run c (p # ps) (q # qs) s =
     (case rendezvous c p q s of None \<Rightarrow> None | Some s' \<Rightarrow> sync_run c ps qs s')"
| "sync_run c (p # ps) [] s = None"
| "sync_run c [] (q # qs) s = None"

subsection \<open>The whole run of \<^verbatim>\<open>main\<close> on two ranks\<close>

text \<open>
  Between two exchanges each rank works on its own memory only, so the run of the pair
  is the composition of the per-rank phases and the exchanges. With \<open>nsteps = 1\<close> the
  source divides by zero in \<^verbatim>\<open>dt = 1.0/(double)(nsteps-1)\<close>; the start step then
  multiplies an infinity by \<^verbatim>\<open>dudt = 0.0\<close> and assigns the resulting NaN to an \<^verbatim>\<open>int\<close>
  cell, which has no defined result. The time loop is \<^verbatim>\<open>for (k=0; k<=nsteps; k++)\<close>.
\<close>

datatype failure = NanToInt | Deadlock

definition step_pair :: "config \<Rightarrow> rank_mem \<times> rank_mem \<Rightarrow> failure + rank_mem \<times> rank_mem" where
  "step_pair c s =
     (case s of (m0, m1) \<Rightarrow>
        (case sync_run c (step_calls c 0) (step_calls c 1) (apply_bc c 0 m0, apply_bc c 1 m1) of
           None \<Rightarrow> Inl Deadlock
         | Some (b0, b1) \<Rightarrow>
             Inr (update_arrays c (timestep c b0), update_arrays c (timestep c b1))))"

fun time_loop ::
  "config \<Rightarrow> int list \<Rightarrow> rank_mem \<times> rank_mem \<Rightarrow> failure + rank_mem \<times> rank_mem" where
  "time_loop c [] s = Inr s"
| "time_loop c (k # ks) s =
     (case step_pair c s of Inl e \<Rightarrow> Inl e | Inr s' \<Rightarrow> time_loop c ks s')"

definition main_run :: "config \<Rightarrow> rank_mem \<times> rank_mem \<Rightarrow> failure + rank_mem \<times> rank_mem" where
  "main_run c s =
     (case s of (m0, m1) \<Rightarrow>
        (if nsteps c = 1 \<and> 1 \<le> nxnom c \<and> 1 \<le> nynom c then Inl NanToInt
         else
           (case sync_run c (bootstrap_calls c 0) (bootstrap_calls c 1)
                   (m0\<lparr>uold := init_uold c 0 (uold m0)\<rparr>, m1\<lparr>uold := init_uold c 1 (uold m1)\<rparr>) of
              None \<Rightarrow> Inl Deadlock
            | Some (a0, a1) \<Rightarrow> time_loop c [0..nsteps c] (bootstrap c a0, bootstrap c a1))))"

subsection \<open>Concrete memories for evaluation\<close>

text \<open>
  A block whose cell at offset \<open>k\<close> holds \<open>b + k\<close>, so that every cell of a memory has a
  value of its own, and two memories built from such blocks.
\<close>

definition pattern_block :: "int \<Rightarrow> block" where
  "pattern_block b = (\<lambda>k. b + k)"

definition sample_mem0 :: rank_mem where
  "sample_mem0 = \<lparr>uold = pattern_block 100, ucur = pattern_block 200, unew = pattern_block 300\<rparr>"

definition sample_mem1 :: rank_mem where
  "sample_mem1 = \<lparr>uold = pattern_block 500, ucur = pattern_block 600, unew = pattern_block 700\<rparr>"

text \<open>The parameters the file is shipped with: \<^verbatim>\<open>nx 100\<close>, \<^verbatim>\<open>ny 100\<close>, \<^verbatim>\<open>nsteps 10\<close>.\<close>

definition as_shipped :: config where
  "as_shipped = \<lparr>nx = 100, ny = 100, nsteps = 10, nprocs = 2, cells_per_double = 2\<rparr>"

text \<open>
  Memories for whole runs: one whose blocks hold 0 everywhere, and one that differs from
  it in a single cell, \<^verbatim>\<open>uold[0][1]\<close> (offset 1), which holds 8. And a memory for one time
  step on the shipped grid: \<^verbatim>\<open>ucur\<close> holds 1 at \<^verbatim>\<open>[2][1]\<close> and 0 elsewhere.
\<close>

definition zero_mem :: rank_mem where
  "zero_mem = \<lparr>uold = (\<lambda>k. 0), ucur = (\<lambda>k. 0), unew = (\<lambda>k. 0)\<rparr>"

definition stale_mem :: rank_mem where
  "stale_mem = \<lparr>uold = (\<lambda>k. if k = 1 then 8 else 0), ucur = (\<lambda>k. 0), unew = (\<lambda>k. 0)\<rparr>"

definition unit_pulse_mem :: rank_mem where
  "unit_pulse_mem =
     \<lparr>uold = (\<lambda>k. 0),
      ucur = (\<lambda>k. if k = cell as_shipped 2 1 then 1 else 0),
      unew = pattern_block 300\<rparr>"

section \<open>The reduction test: \<^verbatim>\<open>beta/wavetoy_testreduce.c\<close> (lines 12 to 41)\<close>

text \<open>
  The grid sizes come from the command line (\<^verbatim>\<open>sscanf\<close> with \<^verbatim>\<open>%i\<close> into \<^verbatim>\<open>int\<close>) and \<open>np\<close>
  from \<^verbatim>\<open>MPI_Comm_size\<close>, so they are any values of a 32-bit \<^verbatim>\<open>int\<close>. Lines 30 and 31
  multiply and add them in \<^verbatim>\<open>int\<close>: a result beyond the range of \<^verbatim>\<open>int\<close> is undefined in C,
  and is the wrapped two's complement value on the usual implementations, which is
  what \<open>wrap_int\<close> gives. A division by zero, and the division of the least \<^verbatim>\<open>int\<close> by
  \<open>-1\<close>, are undefined as well and stop the process with a signal on the usual hardware:
  they are the outcome \<open>DivisionFault\<close>.

  The guard of line 34 reads the locals \<^verbatim>\<open>nxnom\<close> and \<^verbatim>\<open>nynom\<close>, which line 16 declares
  without a value and only lines 40 and 41 assign: the values it tests are whatever the
  two variables hold then, the parameters \<open>nxnom0\<close> and \<open>nynom0\<close>.
  \<^verbatim>\<open>MPI_Abort(MPI_COMM_WORLD, 1)\<close> ends the whole job with exit status 1.
\<close>

definition wrap_int :: "int \<Rightarrow> int" where
  "wrap_int k = (k + 2147483648) mod 4294967296 - 2147483648"

definition c_div_faults :: "int \<Rightarrow> int \<Rightarrow> bool" where
  "c_div_faults a b \<longleftrightarrow> b = 0 \<or> (a = - 2147483648 \<and> b = - 1)"

datatype reduce_outcome =
  DivisionFault
| Aborted int
| Proceeded int int int int

definition tr_nxprocs :: "int \<Rightarrow> int \<Rightarrow> int \<Rightarrow> int" where
  "tr_nxprocs np px py = c_div (wrap_int (np * px)) (wrap_int (px + py))"

definition tr_nyprocs :: "int \<Rightarrow> int \<Rightarrow> int \<Rightarrow> int" where
  "tr_nyprocs np px py = c_div (wrap_int (np * py)) (wrap_int (px + py))"

definition reduce_start :: "int \<Rightarrow> int \<Rightarrow> int \<Rightarrow> int \<Rightarrow> int \<Rightarrow> reduce_outcome" where
  "reduce_start np px py nxnom0 nynom0 =
     (if c_div_faults (wrap_int (np * px)) (wrap_int (px + py))
         \<or> c_div_faults (wrap_int (np * py)) (wrap_int (px + py))
      then DivisionFault
      else
        (let nxp = tr_nxprocs np px py; nyp = tr_nyprocs np px py
         in if nxp = 0 \<or> nyp = 0 \<or> nxnom0 = 0 \<or> nynom0 = 0 then Aborted 1
            else if c_div_faults px nxp \<or> c_div_faults py nyp then DivisionFault
            else Proceeded nxp nyp (c_div px nxp) (c_div py nyp)))"

section \<open>Decomposition coverage\<close>

lemma c_div_even_two: "even a \<Longrightarrow> c_div a 2 = a div 2"
  by (simp add: c_div_def signed_divide_int_eq_divide_int)

text \<open>
  Claim C6. For every even \<open>nx\<close>, on two ranks, with \<open>nxLocal = nx / 2\<close> and the global
  offset \<open>rank * nxLocal\<close>: the owned global column ranges \<open>gixs..gixe\<close> of rank 0 and of
  rank 1 are contiguous (rank 1 starts right after rank 0 ends), do not overlap, and
  their union is exactly \<open>1..nx\<close>.
\<close>

theorem decomposition_coverage:
  assumes "even (nx c)" and "nprocs c = 2"
  shows "gixs c 0 = 1 \<and> gixe c 0 + 1 = gixs c 1 \<and> gixe c 1 = nx c \<and>
         {gixs c 0..gixe c 0} \<inter> {gixs c 1..gixe c 1} = {} \<and>
         {gixs c 0..gixe c 0} \<union> {gixs c 1..gixe c 1} = {1..nx c}"
proof -
  obtain m where m: "nx c = 2 * m"
    using assms(1) by (auto elim: evenE)
  have nom: "nxnom c = m"
    using assms c_div_even_two [of "nx c"] m by (simp add: nxnom_def nxprocs_def)
  have s0: "gixs c 0 = 1" and e0: "gixe c 0 = m"
    and s1: "gixs c 1 = m + 1" and e1: "gixe c 1 = 2 * m"
    by (simp_all add: gixs_def gixe_def nom)
  show ?thesis
    unfolding s0 e0 s1 e1 m by auto
qed

theorem decomposition_coverage_witness:
  "even (nx (grid4 2 2)) \<and> nprocs (grid4 2 2) = 2 \<and>
   gixs (grid4 2 2) 0 = 1 \<and> gixe (grid4 2 2) 0 = 2 \<and>
   gixs (grid4 2 2) 1 = 3 \<and> gixe (grid4 2 2) 1 = 4 \<and>
   {gixs (grid4 2 2) 0..gixe (grid4 2 2) 0} \<union> {gixs (grid4 2 2) 1..gixe (grid4 2 2) 1}
     = {1..nx (grid4 2 2)}"
proof -
  have h1: "even (nx (grid4 2 2))" and h2: "nprocs (grid4 2 2) = 2"
    and n: "nx (grid4 2 2) = 4"
    by (simp_all add: grid4_def)
  have v: "gixe (grid4 2 2) 0 = 2"
    by (simp add: grid4_def gixe_def gixs_def nxnom_def nxprocs_def c_div_def)
  note cov = decomposition_coverage [OF h1 h2]
  from cov v have s1: "gixs (grid4 2 2) 1 = 3"
    by simp
  from cov n have e1: "gixe (grid4 2 2) 1 = 4"
    by simp
  from cov show ?thesis
    using h1 h2 v s1 e1 by auto
qed

section \<open>Evaluation facts\<close>

lemmas geometry =
  cell_def gny_def gnx_def iye_def iys_def ixe_def ixs_def ixem_def iyem_def
  nynom_def nxnom_def nyprocs_def nxprocs_def c_div_def gixs_def gixe_def

lemma gny_eq: "gny c = ny c + 2"
  by (simp add: geometry)

lemma iye_eq: "iye c = ny c + 1"
  by (simp add: geometry)

lemma ixe_eq: "ixe c = nxnom c + 1"
  by (simp add: geometry)

section \<open>Storing a floating-point value in a cell\<close>

lemma double_to_int_of_int: "double_to_int (real_of_int n) = n"
  by (simp add: double_to_int_def)

lemma cell_get_set: "cell_get c (cell_set c u i j v) i j = double_to_int v"
  by (simp add: cell_get_def cell_set_def)

text \<open>
  Claim C2 says that reading a cell right after writing a floating-point scalar \<open>v\<close> to
  it returns \<open>v\<close> exactly, for each of the three blocks. The blocks are declared
  \<^verbatim>\<open>int\<close>, so the read returns \<open>v\<close> without its fractional part: writing \<open>0.5\<close> to
  \<^verbatim>\<open>u[1][1]\<close> and reading it back gives \<open>0\<close>.
\<close>

theorem half_reads_back_as_zero:
  "cell_get (grid4 2 2) (cell_set (grid4 2 2) (pattern_block 100) 1 1 (1 / 2)) 1 1 = 0
   \<and> cell_get (grid4 2 2) (pattern_block 100) 1 1 = 107"
  by (simp add: cell_get_def cell_set_def double_to_int_def pattern_block_def geometry grid4_def)

section \<open>The initial pulse\<close>

lemma xcoord_below: "0 \<le> nx c \<Longrightarrow> 1 \<le> i \<Longrightarrow> xcoord c i < - 1"
  by (simp add: xcoord_def field_simps)

lemma xcoord_nonzero: "0 \<le> nx c \<Longrightarrow> 1 \<le> i \<Longrightarrow> xcoord c i \<noteq> 0"
  using xcoord_below [of c i] by simp

lemma ycoord_below: "0 \<le> ny c \<Longrightarrow> 1 \<le> j \<Longrightarrow> ycoord c j < - 1"
  by (simp add: ycoord_def field_simps)

lemma gaussian_truncates_to_zero: "x \<noteq> 0 \<Longrightarrow> double_to_int (gaussian x y) = 0"
proof -
  assume "x \<noteq> 0"
  then have "0 < x * x"
    by (auto simp: zero_less_mult_iff)
  moreover have "0 \<le> y * y"
    by simp
  ultimately have "- (x * x) < y * y"
    by linarith
  then have neg: "- x * x / 0.01 - y * y / 0.01 < 0"
    by (simp add: field_simps)
  have "exp (- x * x / 0.01 - y * y / 0.01) < 1"
    using neg by simp
  moreover have "0 < exp (- x * x / 0.01 - y * y / 0.01)"
    by simp
  ultimately show ?thesis
    unfolding gaussian_def double_to_int_def by (simp add: floor_eq_iff)
qed

text \<open>
  At the coordinates the claim describes, \<open>x = -1 + i dx\<close> with \<open>dx = 2/5\<close>, the cells
  nearest the origin lie at \<open>\<bar>x\<bar> = \<bar>y\<bar> = 1/5\<close>; the pulse is narrow enough to be small
  there already.
\<close>

lemma gaussian_one_fifth_from_origin:
  "gaussian (- 1 / 5) (- 1 / 5) = exp (- 8)" "gaussian (- 1 / 5) (- 1 / 5) \<le> 1 / 9"
proof -
  show e: "gaussian (- 1 / 5) (- 1 / 5) = exp (- 8)"
    by (simp add: gaussian_def)
  have "(1::real) + 8 \<le> exp 8"
    by (rule exp_ge_add_one_self)
  then have "1 / exp (8::real) \<le> 1 / 9"
    by (simp add: field_simps)
  then show "gaussian (- 1 / 5) (- 1 / 5) \<le> 1 / 9"
    unfolding e by (simp add: exp_minus field_simps)
qed

lemmas init_eval =
  init_uold_def init_point_def cell_set_def cell_get_def xcoord_def ycoord_def Let_def
  upto.simps geometry gaussian_truncates_to_zero

text \<open>
  Claim C3 says that every owned interior cell of the previous buffer receives
  \<open>exp (- x\<^sup>2/0.01 - y\<^sup>2/0.01)\<close> at the affine image \<open>(x, y)\<close> of its global index in
  \<open>(-1, 1)\<close>, so that for \<open>nx = ny = 4\<close> the cell nearest the origin receives a value
  close to 1. The source computes \<open>x = - (1 + nx + 2 i) / (1 + nx)\<close>: for \<open>nx = 4\<close> the
  global column 2 is at \<open>x = - 9/5\<close> and column 3 at \<open>x = - 11/5\<close>, outside \<open>(-1, 1)\<close>,
  and the cells nearest the origin (global \<open>(2, 2)\<close> on rank 0, global \<open>(3, 3)\<close> on
  rank 1, local \<open>(1, 3)\<close>) hold \<open>0\<close> after the initialisation.
\<close>

theorem centre_cells_hold_zero:
  "xcoord (grid4 2 2) 2 = - 9 / 5 \<and> ycoord (grid4 2 2) 2 = - 9 / 5
   \<and> xcoord (grid4 2 2) 3 = - 11 / 5 \<and> ycoord (grid4 2 2) 3 = - 11 / 5
   \<and> cell_get (grid4 2 2) (init_uold (grid4 2 2) 0 (pattern_block 100)) 2 2 = 0
   \<and> cell_get (grid4 2 2) (init_uold (grid4 2 2) 1 (pattern_block 500)) 1 3 = 0"
  by (simp add: init_eval grid4_def)

section \<open>The row tables\<close>

lemma setup_body_in_range: "0 \<le> i \<Longrightarrow> i < gnx c \<Longrightarrow> \<exists>ts'. setup_body c i ts = Inr ts'"
  by (cases ts) (simp add: setup_body_def table_store_def)

lemma setup_body_at_gnx: "i = gnx c \<Longrightarrow> setup_body c i ts = Inl (OutOfBounds i)"
  by (cases ts) (simp add: setup_body_def table_store_def)

text \<open>Whatever the grid, the last pass of the setup loop stores at slot \<open>gnx\<close>.\<close>

lemma setup_loop_overruns:
  "0 \<le> a \<Longrightarrow> a \<le> gnx c \<Longrightarrow> setup_loop c [a..gnx c] ts = Inl (OutOfBounds (gnx c))"
proof (induction "nat (gnx c - a)" arbitrary: a ts)
  case 0
  then have "a = gnx c"
    by simp
  then show ?case
    by (simp add: upto.simps [of "gnx c" "gnx c"] upto.simps [of "gnx c + 1" "gnx c"]
        setup_body_at_gnx)
next
  case (Suc n)
  then have lt: "a < gnx c"
    by simp
  obtain ts' where b: "setup_body c a ts = Inr ts'"
    using setup_body_in_range [of a c ts] Suc.prems lt by auto
  have "setup_loop c [a..gnx c] ts = setup_loop c [a + 1..gnx c] ts'"
    using lt b by (simp add: upto.simps [of a "gnx c"])
  also have "\<dots> = Inl (OutOfBounds (gnx c))"
    using Suc lt by (intro Suc.hyps) auto
  finally show ?case .
qed

text \<open>
  Claim C9 says that every index used on the row tables \<^verbatim>\<open>uold\<close>, \<^verbatim>\<open>ucur\<close>, \<^verbatim>\<open>unew\<close> lies
  in their extent \<open>0..gnx-1\<close>, in particular in the setup loop. The loop runs \<open>i\<close> up to
  \<open>gnx\<close> inclusive: with the shipped parameters a table has 52 slots and the loop
  stores at slot 52; on the 4 by 4 grid a table has 4 slots and the loop stores at
  slot 4.
\<close>

theorem setup_loop_stores_past_the_table:
  "gnx as_shipped = 52
   \<and> setup_tables as_shipped (\<lambda>i. 0, \<lambda>i. 0, \<lambda>i. 0) = Inl (OutOfBounds 52)
   \<and> gnx (grid4 2 2) = 4
   \<and> setup_tables (grid4 2 2) (\<lambda>i. 0, \<lambda>i. 0, \<lambda>i. 0) = Inl (OutOfBounds 4)"
proof -
  have a: "gnx as_shipped = 52" and b: "gnx (grid4 2 2) = 4"
    by (simp_all add: as_shipped_def grid4_def geometry)
  have "setup_tables as_shipped (\<lambda>i. 0, \<lambda>i. 0, \<lambda>i. 0) = Inl (OutOfBounds (gnx as_shipped))"
    unfolding setup_tables_def by (rule setup_loop_overruns) (simp_all add: a)
  moreover have
    "setup_tables (grid4 2 2) (\<lambda>i. 0, \<lambda>i. 0, \<lambda>i. 0) = Inl (OutOfBounds (gnx (grid4 2 2)))"
    unfolding setup_tables_def by (rule setup_loop_overruns) (simp_all add: b)
  ultimately show ?thesis
    using a b by simp
qed

section \<open>The guard of the reduction test\<close>

lemmas reduce_eval =
  reduce_start_def tr_nxprocs_def tr_nyprocs_def c_div_faults_def wrap_int_def c_div_def Let_def

text \<open>
  Where no division faults, a zero dimension of the processor grid aborts the job,
  whatever \<^verbatim>\<open>nxnom\<close> and \<^verbatim>\<open>nynom\<close> hold at the guard.
\<close>

lemma zero_dimension_aborts:
  assumes "reduce_start np px py a b \<noteq> DivisionFault"
    and "tr_nxprocs np px py = 0 \<or> tr_nyprocs np px py = 0"
  shows "reduce_start np px py a b = Aborted 1"
  using assms by (auto simp: reduce_start_def Let_def)

text \<open>
  The outcome, where the divisions of lines 30 and 31 do not fault: the job is aborted
  exactly when one of the four values the guard tests is zero.
\<close>

lemma reduce_start_aborts_iff:
  assumes "\<not> c_div_faults (wrap_int (np * px)) (wrap_int (px + py))"
    and "\<not> c_div_faults (wrap_int (np * py)) (wrap_int (px + py))"
  shows "reduce_start np px py a b = Aborted 1 \<longleftrightarrow>
         tr_nxprocs np px py = 0 \<or> tr_nyprocs np px py = 0 \<or> a = 0 \<or> b = 0"
  using assms by (simp add: reduce_start_def Let_def)

text \<open>
  The product of line 30 is taken in \<^verbatim>\<open>int\<close>: on 3 processes and a grid of \<open>10\<^sup>9\<close> by
  \<open>10\<^sup>9\<close> points it wraps to a negative value, the processor grid gets the dimension 0
  and the job is aborted.
\<close>

lemma wrapped_product_aborts:
  "wrap_int (3 * 1000000000) = - 1294967296
   \<and> tr_nxprocs 3 1000000000 1000000000 = 0
   \<and> reduce_start 3 1000000000 1000000000 a b = Aborted 1"
  by (simp add: reduce_eval)

text \<open>
  Claim C10 says that the utility aborts the job if and only if its processor grid has
  a zero dimension (\<open>nxprocs = 0\<close> or \<open>nyprocs = 0\<close>), and proceeds without an error for
  every input with a nonzero grid in both axes. On 2 processes and a grid of 1 by 1
  points both dimensions of the processor grid are 1, and so are the two patch sizes
  that lines 40 and 41 would compute; the utility proceeds if \<^verbatim>\<open>nxnom\<close> and \<^verbatim>\<open>nynom\<close>
  happen to hold nonzero values at the guard, and aborts with exit status 1 if
  \<^verbatim>\<open>nxnom\<close> happens to hold 0 there.
\<close>

theorem abort_with_nonzero_processor_grid:
  "tr_nxprocs 2 1 1 = 1 \<and> tr_nyprocs 2 1 1 = 1
   \<and> c_div 1 (tr_nxprocs 2 1 1) = 1 \<and> c_div 1 (tr_nyprocs 2 1 1) = 1
   \<and> reduce_start 2 1 1 7 7 = Proceeded 1 1 1 1
   \<and> reduce_start 2 1 1 0 5 = Aborted 1"
  by (simp add: reduce_eval)

section \<open>The exchange completes\<close>

lemma exchange_calls_complete:
  "\<exists>s'. sync_run c (exchange_calls c 0 b) (exchange_calls c 1 b) s = Some s'"
  by (cases s) (simp add: exchange_calls_def)

text \<open>
  The transport of the model does block: if rank 1 issued its send before its receive,
  both ranks would start with a send and neither would ever complete.
\<close>

lemma send_first_deadlocks:
  "sync_run c (exchange_calls c 0 b) (rev (exchange_calls c 1 b)) s = None"
  by (cases s) (simp add: exchange_calls_def)

text \<open>
  Claim C8. For every \<open>ny\<close> (and every grid and memory contents), when both ranks run
  the exchange on a synchronous blocking transport, rank 0 sending then receiving and
  rank 1 receiving then sending with matching tags, every call of both ranks completes:
  the exchange before the start step and the exchange of a time step both run to the
  end of both call lists.
\<close>

theorem exchange_never_blocks:
  "(\<exists>s'. sync_run c (bootstrap_calls c 0) (bootstrap_calls c 1) s = Some s')
   \<and> (\<exists>s'. sync_run c (step_calls c 0) (step_calls c 1) s = Some s')"
  by (cases s) (simp add: bootstrap_calls_def step_calls_def exchange_calls_def)

section \<open>Cells, loops over cells and the phases of a run\<close>


lemma cell_div: "0 \<le> j \<Longrightarrow> j < gny c \<Longrightarrow> cell c i j div gny c = i"
  by (simp add: cell_def)

lemma cell_mod: "0 \<le> j \<Longrightarrow> j < gny c \<Longrightarrow> cell c i j mod gny c = j"
  by (simp add: cell_def)

lemma cell_inj:
  assumes "0 \<le> j" "j < gny c" "0 \<le> j'" "j' < gny c"
  shows "cell c i j = cell c i' j' \<longleftrightarrow> i = i' \<and> j = j'"
  using cell_div [OF assms(1,2), of i] cell_mod [OF assms(1,2), of i]
    cell_div [OF assms(3,4), of i'] cell_mod [OF assms(3,4), of i'] by auto

lemma fold_row_cell:
  assumes "\<forall>j\<in>set js. 0 \<le> j \<and> j < gny c" "0 \<le> j0" "j0 < gny c"
  shows "fold (\<lambda>j u. u(cell c i j := f j)) js u (cell c i0 j0) =
         (if i = i0 \<and> j0 \<in> set js then f j0 else u (cell c i0 j0))"
  using assms(1)
proof (induction js arbitrary: u)
  case Nil
  then show ?case by simp
next
  case (Cons j js)
  then have j: "0 \<le> j" "j < gny c" by simp_all
  show ?case
    using Cons cell_inj [OF j assms(2,3), of i i0] by auto
qed

lemma fold_grid_cell:
  assumes "\<forall>j\<in>set js. 0 \<le> j \<and> j < gny c" "0 \<le> j0" "j0 < gny c"
  shows "fold (\<lambda>i. fold (\<lambda>j u. u(cell c i j := f i j)) js) is u (cell c i0 j0) =
         (if i0 \<in> set is \<and> j0 \<in> set js then f i0 j0 else u (cell c i0 j0))"
proof -
  define row where "row = (\<lambda>i. fold (\<lambda>j u. u(cell c i j := f i j)) js)"
  have row_cell: "row i u (cell c i0 j0) =
      (if i = i0 \<and> j0 \<in> set js then f i0 j0 else u (cell c i0 j0))" for i u
    unfolding row_def using fold_row_cell [OF assms, where f = "f i" and i = i] by auto
  have "fold row is u (cell c i0 j0) =
      (if i0 \<in> set is \<and> j0 \<in> set js then f i0 j0 else u (cell c i0 j0))"
  proof (induction "is" arbitrary: u)
    case Nil
    then show ?case
      by simp
  next
    case (Cons a "is")
    have "fold row (a # is) u (cell c i0 j0) = fold row is (row a u) (cell c i0 j0)"
      by simp
    also have "\<dots> = (if i0 \<in> set is \<and> j0 \<in> set js then f i0 j0
                      else row a u (cell c i0 j0))"
      by (rule Cons.IH)
    also have "\<dots> = (if i0 \<in> set (a # is) \<and> j0 \<in> set js then f i0 j0
                      else u (cell c i0 j0))"
      unfolding row_cell by auto
    finally show ?case .
  qed
  then show ?thesis
    unfolding row_def .
qed

lemma cell_of_offset: "0 < gny c \<Longrightarrow> cell c (k div gny c) (k mod gny c) = k"
  by (simp add: cell_def)

lemma rows_in_range: "\<forall>j\<in>set [1..ny c]. 0 \<le> j \<and> j < gny c"
  by (simp add: gny_eq)

lemma rows_in_range': "\<forall>j\<in>set [1..nynom c]. 0 \<le> j \<and> j < gny c"
  by (simp add: geometry)

lemma timestep_frame: "uold (timestep c m) = uold m" "ucur (timestep c m) = ucur m"
  by (simp_all add: timestep_def)

lemma timestep_cell:
  assumes "0 \<le> j" "j < gny c"
  shows "unew (timestep c m) (cell c i j) =
         (if 1 \<le> i \<and> i \<le> nxnom c \<and> 1 \<le> j \<and> j \<le> ny c
          then double_to_int (step_value c (uold m) (ucur m) i j)
          else unew m (cell c i j))"
proof -
  have "unew (timestep c m) =
        fold (\<lambda>i. fold (\<lambda>j u. u(cell c i j :=
                double_to_int (step_value c (uold m) (ucur m) i j))) [1..ny c])
          [1..nxnom c] (unew m)"
    by (simp add: timestep_def cell_set_def)
  then show ?thesis
    using fold_grid_cell [OF rows_in_range assms,
        where f = "\<lambda>i j. double_to_int (step_value c (uold m) (ucur m) i j)"]
    by simp
qed

lemma bootstrap_frame: "uold (bootstrap c m) = uold m" "unew (bootstrap c m) = unew m"
  by (simp_all add: bootstrap_def)

lemma bootstrap_cell:
  assumes "0 \<le> j" "j < gny c"
  shows "ucur (bootstrap c m) (cell c i j) =
         (if 1 \<le> i \<and> i \<le> nxnom c \<and> 1 \<le> j \<and> j \<le> nynom c
          then double_to_int (boot_value c (uold m) i j)
          else ucur m (cell c i j))"
proof -
  have "ucur (bootstrap c m) =
        fold (\<lambda>i. fold (\<lambda>j u. u(cell c i j :=
                double_to_int (boot_value c (uold m) i j))) [1..nynom c])
          [1..nxnom c] (ucur m)"
    by (simp add: bootstrap_def cell_set_def)
  then show ?thesis
    using fold_grid_cell [OF rows_in_range' assms,
        where f = "\<lambda>i j. double_to_int (boot_value c (uold m) i j)"]
    by simp
qed

lemma zero_cells_at: "zero_cells ks u k = (if k \<in> set ks then 0 else u k)"
  unfolding zero_cells_def
  by (induction ks arbitrary: u) (simp_all add: double_to_int_def)

lemma apply_bc_frame: "unew (apply_bc c w m) = unew m"
  by (simp add: apply_bc_def)

lemma apply_bc_at:
  "uold (apply_bc c w m) k = (if k \<in> set (bc_cells c w) then 0 else uold m k)"
  "ucur (apply_bc c w m) k = (if k \<in> set (bc_cells c w) then 0 else ucur m k)"
  by (simp_all add: apply_bc_def zero_cells_at)

lemma cell_in_column:
  assumes "0 \<le> j" "j < gny c" "0 \<le> lo" "hi < gny c"
  shows "cell c i j \<in> cell c a ` {lo..hi} \<longleftrightarrow> i = a \<and> lo \<le> j \<and> j \<le> hi"
proof
  assume "cell c i j \<in> cell c a ` {lo..hi}"
  then obtain y where y: "lo \<le> y" "y \<le> hi" "cell c i j = cell c a y"
    by auto
  have "i = a \<and> j = y"
    using cell_inj [OF assms(1,2), of y i a] y assms by simp
  then show "i = a \<and> lo \<le> j \<and> j \<le> hi"
    using y by simp
next
  assume "i = a \<and> lo \<le> j \<and> j \<le> hi"
  then show "cell c i j \<in> cell c a ` {lo..hi}"
    by simp
qed

lemma cell_in_row:
  assumes "0 \<le> j" "j < gny c" "0 \<le> b" "b < gny c"
  shows "cell c i j \<in> (\<lambda>x. cell c x b) ` {lo..hi} \<longleftrightarrow> j = b \<and> lo \<le> i \<and> i \<le> hi"
proof
  assume "cell c i j \<in> (\<lambda>x. cell c x b) ` {lo..hi}"
  then obtain x where x: "lo \<le> x" "x \<le> hi" "cell c i j = cell c x b"
    by auto
  have "i = x \<and> j = b"
    using cell_inj [OF assms, of i x] x by simp
  then show "j = b \<and> lo \<le> i \<and> i \<le> hi"
    using x by simp
next
  assume "j = b \<and> lo \<le> i \<and> i \<le> hi"
  then show "cell c i j \<in> (\<lambda>x. cell c x b) ` {lo..hi}"
    by simp
qed

lemma bc_cells_member:
  assumes "0 \<le> i" "i \<le> ixe c" "0 \<le> j" "j \<le> iye c"
  shows "cell c i j \<in> set (bc_cells c w) \<longleftrightarrow>
         j = 0 \<or> j = iye c \<or> (if w = 0 then i = 0 else i = ixe c)"
proof -
  have g: "j < gny c" "0 \<le> iye c" "iye c < gny c" "(0::int) < gny c" "iyem c < gny c"
    using assms by (simp_all add: gny_eq iye_eq iyem_def)
  note j = assms(3) g(1)
  have corner: "cell c i j = cell c a 0 \<longleftrightarrow> i = a \<and> j = 0"
    "cell c i j = cell c a (iye c) \<longleftrightarrow> i = a \<and> j = iye c" for a
    using g cell_inj [OF j, of 0 i a] cell_inj [OF j, of "iye c" i a] by simp_all
  have col: "cell c i j \<in> cell c a ` {1..iyem c} \<longleftrightarrow>
      i = a \<and> 1 \<le> j \<and> j \<le> iyem c" for a
    using cell_in_column [OF j _ g(5), of 1 i a] by simp
  have row0: "cell c i j \<in> (\<lambda>x. cell c x 0) ` {1..ixem c} \<longleftrightarrow>
      j = 0 \<and> 1 \<le> i \<and> i \<le> ixem c"
    using cell_in_row [OF j _ g(4), of i 1 "ixem c"] by simp
  have rowe: "cell c i j \<in> (\<lambda>x. cell c x (iye c)) ` {1..ixem c} \<longleftrightarrow>
      j = iye c \<and> 1 \<le> i \<and> i \<le> ixem c"
    using cell_in_row [OF j g(2,3), of i 1 "ixem c"] by simp
  have i_cases: "i = 0 \<or> i = ixe c \<or> (1 \<le> i \<and> i \<le> ixem c)"
    using assms(1,2) unfolding ixem_def by linarith
  have j_cases: "j = 0 \<or> j = iye c \<or> (1 \<le> j \<and> j \<le> iyem c)"
    using assms(3,4) unfolding iyem_def by linarith
  show ?thesis
  proof (cases "w = 0")
    case True
    then have "cell c i j \<in> set (bc_cells c w) \<longleftrightarrow>
        (i = 0 \<and> j = 0) \<or> (i = 0 \<and> j = iye c) \<or> (i = ixe c \<and> j = 0)
        \<or> (i = ixe c \<and> j = iye c) \<or> (i = 0 \<and> 1 \<le> j \<and> j \<le> iyem c)
        \<or> (j = 0 \<and> 1 \<le> i \<and> i \<le> ixem c) \<or> (j = iye c \<and> 1 \<le> i \<and> i \<le> ixem c)"
      unfolding bc_cells_def by (simp add: corner col row0 rowe)
    then have "cell c i j \<in> set (bc_cells c w) \<longleftrightarrow> j = 0 \<or> j = iye c \<or> i = 0"
      using i_cases j_cases by blast
    then show ?thesis
      using True by simp
  next
    case False
    then have "cell c i j \<in> set (bc_cells c w) \<longleftrightarrow>
        (i = ixe c \<and> j = 0) \<or> (i = ixe c \<and> j = iye c) \<or> (i = 0 \<and> j = 0)
        \<or> (i = 0 \<and> j = iye c) \<or> (i = ixe c \<and> 1 \<le> j \<and> j \<le> iyem c)
        \<or> (j = 0 \<and> 1 \<le> i \<and> i \<le> ixem c) \<or> (j = iye c \<and> 1 \<le> i \<and> i \<le> ixem c)"
      unfolding bc_cells_def by (simp add: corner col row0 rowe)
    then have "cell c i j \<in> set (bc_cells c w) \<longleftrightarrow> j = 0 \<or> j = iye c \<or> i = ixe c"
      using i_cases j_cases by blast
    then show ?thesis
      using False by simp
  qed
qed

lemma deliver_payload:
  "deliver u a (payload c v s n) k =
   (if a \<le> k \<and> k < a + cells_per_double c * n then v (s + (k - a)) else u k)"
proof (cases "a \<le> k \<and> k < a + cells_per_double c * n")
  case True
  then have "s + int (nat (k - a)) \<le> s + cells_per_double c * n - 1"
    by simp
  then have "[s..s + cells_per_double c * n - 1] ! nat (k - a) = s + int (nat (k - a))"
    by (rule nth_upto)
  then show ?thesis
    using True by (simp add: deliver_def payload_def)
next
  case False
  then show ?thesis
    by (auto simp: deliver_def payload_def)
qed

lemma exchange_result:
  "sync_run c (exchange_calls c 0 b) (exchange_calls c 1 b) (m0, m1) =
   (let m1' = put_block b (deliver (block_of b m1) (cell c 0 0)
                 (payload c (block_of b m0) (cell c (ixem c) 0) (ny c))) m1;
        m0' = put_block b (deliver (block_of b m0) (cell c (ixe c) 0)
                 (payload c (block_of b m1') (cell c 1 0) (ny c))) m0
    in Some (m0', m1'))"
  by (simp add: exchange_calls_def Let_def)

lemma sync_run_append:
  "length ps = length qs \<Longrightarrow>
   sync_run c (ps @ ps') (qs @ qs') s =
   (case sync_run c ps qs s of None \<Rightarrow> None | Some s' \<Rightarrow> sync_run c ps' qs' s')"
proof (induction ps arbitrary: qs s)
  case Nil
  then show ?case by simp
next
  case (Cons p ps)
  then obtain q qs0 where q: "qs = q # qs0" "length ps = length qs0"
    by (cases qs) auto
  show ?case
    unfolding q(1) using Cons.IH [OF q(2)] by (simp split: option.splits)
qed

lemma fold_skip: "fold (\<lambda>j u. u) js u = u"
  by (induction js) simp_all

lemma init_row_cell:
  assumes "\<forall>j\<in>set js. 0 \<le> j \<and> j < gny c" "0 \<le> j0" "j0 < gny c"
  shows "fold (\<lambda>j. init_point c w i j) js u (cell c i0 j0) =
         (if gixs c w \<le> i \<and> i \<le> gixe c w \<and> i - gixs c w + 1 = i0 \<and> j0 \<in> set js
          then double_to_int (gaussian (xcoord c i) (ycoord c j0))
          else u (cell c i0 j0))"
proof (cases "gixs c w \<le> i \<and> i \<le> gixe c w")
  case True
  then have "(\<lambda>j. init_point c w i j) =
      (\<lambda>j u. u(cell c (i - gixs c w + 1) j :=
          double_to_int (gaussian (xcoord c i) (ycoord c j))))"
    by (simp add: init_point_def cell_set_def Let_def fun_eq_iff)
  then show ?thesis
    using True fold_row_cell [OF assms, where i = "i - gixs c w + 1"
        and f = "\<lambda>j. double_to_int (gaussian (xcoord c i) (ycoord c j))"]
    by simp
next
  case False
  then have "(\<lambda>j. init_point c w i j) = (\<lambda>j u. u)"
    by (auto simp: init_point_def fun_eq_iff Let_def)
  then show ?thesis
    using False by (auto simp: fold_skip)
qed

lemma init_uold_cell:
  assumes "0 \<le> j" "j < gny c"
  shows "init_uold c w u (cell c li j) =
         (if 1 \<le> li \<and> li \<le> nxnom c \<and> 1 \<le> li + gixs c w - 1 \<and> li + gixs c w - 1 \<le> nx c
             \<and> 1 \<le> j \<and> j \<le> ny c
          then double_to_int (gaussian (xcoord c (li + gixs c w - 1)) (ycoord c j))
          else u (cell c li j))"
proof -
  define row where "row = (\<lambda>i. fold (\<lambda>j. init_point c w i j) [1..ny c])"
  define owned where "owned = (\<lambda>i. gixs c w \<le> i \<and> i \<le> gixe c w \<and> i - gixs c w + 1 = li)"
  have row_cell: "row i v (cell c li j) =
      (if owned i \<and> 1 \<le> j \<and> j \<le> ny c
       then double_to_int (gaussian (xcoord c i) (ycoord c j)) else v (cell c li j))" for i v
    unfolding row_def owned_def using init_row_cell [OF rows_in_range assms, of w i v li]
    by simp
  have owned_eq: "owned i \<Longrightarrow> i = li + gixs c w - 1" for i
    by (simp add: owned_def)
  have gen: "fold row is v (cell c li j) =
      (if (\<exists>i\<in>set is. owned i) \<and> 1 \<le> j \<and> j \<le> ny c
       then double_to_int (gaussian (xcoord c (li + gixs c w - 1)) (ycoord c j))
       else v (cell c li j))" for "is" v
  proof (induction "is" arbitrary: v)
    case Nil
    then show ?case
      by simp
  next
    case (Cons a "is")
    have "fold row (a # is) v (cell c li j) = fold row is (row a v) (cell c li j)"
      by simp
    also have "\<dots> = (if (\<exists>i\<in>set is. owned i) \<and> 1 \<le> j \<and> j \<le> ny c
        then double_to_int (gaussian (xcoord c (li + gixs c w - 1)) (ycoord c j))
        else row a v (cell c li j))"
      by (rule Cons.IH)
    also have "\<dots> = (if (\<exists>i\<in>set (a # is). owned i) \<and> 1 \<le> j \<and> j \<le> ny c
        then double_to_int (gaussian (xcoord c (li + gixs c w - 1)) (ycoord c j))
        else v (cell c li j))"
      unfolding row_cell using owned_eq [of a] by auto
    finally show ?case .
  qed
  have ex: "(\<exists>i\<in>set [1..nx c]. owned i) \<longleftrightarrow>
      1 \<le> li \<and> li \<le> nxnom c \<and> 1 \<le> li + gixs c w - 1 \<and> li + gixs c w - 1 \<le> nx c"
  proof
    assume "\<exists>i\<in>set [1..nx c]. owned i"
    then obtain i where "1 \<le> i" "i \<le> nx c" "owned i"
      by auto
    then show "1 \<le> li \<and> li \<le> nxnom c \<and> 1 \<le> li + gixs c w - 1 \<and> li + gixs c w - 1 \<le> nx c"
      by (simp add: owned_def gixe_def)
  next
    assume a: "1 \<le> li \<and> li \<le> nxnom c \<and> 1 \<le> li + gixs c w - 1 \<and> li + gixs c w - 1 \<le> nx c"
    then have "owned (li + gixs c w - 1)"
      by (simp add: owned_def gixe_def)
    then show "\<exists>i\<in>set [1..nx c]. owned i"
      using a by auto
  qed
  have "init_uold c w u = fold row [1..nx c] u"
    by (simp add: init_uold_def row_def)
  then show ?thesis
    using gen [of "[1..nx c]" u] unfolding ex by simp
qed

lemma update_cell_parts:
  "unew (update_cell c i j m) = unew m"
  "ucur (update_cell c i j m) = (ucur m)(cell c i j := unew m (cell c i j))"
  "uold (update_cell c i j m) = (uold m)(cell c i j := ucur m (cell c i j))"
  by (simp_all add: update_cell_def cell_get_def Let_def)

lemma update_row_cell:
  assumes "\<forall>j\<in>set js. 0 \<le> j \<and> j < gny c" "distinct js" "0 \<le> j0" "j0 < gny c"
  shows "unew (fold (\<lambda>j. update_cell c i j) js m) = unew m
    \<and> ucur (fold (\<lambda>j. update_cell c i j) js m) (cell c i0 j0) =
        (if i = i0 \<and> j0 \<in> set js then unew m (cell c i0 j0) else ucur m (cell c i0 j0))
    \<and> uold (fold (\<lambda>j. update_cell c i j) js m) (cell c i0 j0) =
        (if i = i0 \<and> j0 \<in> set js then ucur m (cell c i0 j0) else uold m (cell c i0 j0))"
  using assms(1,2)
proof (induction js arbitrary: m)
  case Nil
  then show ?case
    by simp
next
  case (Cons j js)
  then have j: "0 \<le> j" "j < gny c" "j \<notin> set js"
    by simp_all
  have eq: "cell c i j = cell c i0 j0 \<longleftrightarrow> i = i0 \<and> j = j0"
    using cell_inj [OF j(1,2) assms(3,4)] .
  have ih: "unew (fold (\<lambda>j. update_cell c i j) js (update_cell c i j m)) = unew (update_cell c i j m)
    \<and> ucur (fold (\<lambda>j. update_cell c i j) js (update_cell c i j m)) (cell c i0 j0) =
        (if i = i0 \<and> j0 \<in> set js then unew (update_cell c i j m) (cell c i0 j0)
         else ucur (update_cell c i j m) (cell c i0 j0))
    \<and> uold (fold (\<lambda>j. update_cell c i j) js (update_cell c i j m)) (cell c i0 j0) =
        (if i = i0 \<and> j0 \<in> set js then ucur (update_cell c i j m) (cell c i0 j0)
         else uold (update_cell c i j m) (cell c i0 j0))"
    using Cons by simp
  show ?case
    using ih j(3) eq by (auto simp: update_cell_parts)
qed

lemma update_arrays_cell:
  assumes "0 \<le> j" "j < gny c"
  shows "unew (update_arrays c m) = unew m"
    and "ucur (update_arrays c m) (cell c i j) =
        (if 1 \<le> i \<and> i \<le> nxnom c \<and> 1 \<le> j \<and> j \<le> ny c
         then unew m (cell c i j) else ucur m (cell c i j))"
    and "uold (update_arrays c m) (cell c i j) =
        (if 1 \<le> i \<and> i \<le> nxnom c \<and> 1 \<le> j \<and> j \<le> ny c
         then ucur m (cell c i j) else uold m (cell c i j))"
proof -
  define row where "row = (\<lambda>i. fold (\<lambda>j. update_cell c i j) [1..ny c])"
  have row_cell: "unew (row a v) = unew v
    \<and> ucur (row a v) (cell c i j) =
        (if a = i \<and> j \<in> set [1..ny c] then unew v (cell c i j) else ucur v (cell c i j))
    \<and> uold (row a v) (cell c i j) =
        (if a = i \<and> j \<in> set [1..ny c] then ucur v (cell c i j) else uold v (cell c i j))" for a v
    unfolding row_def by (rule update_row_cell [OF rows_in_range distinct_upto assms])
  have gen: "distinct is \<Longrightarrow> unew (fold row is v) = unew v
    \<and> ucur (fold row is v) (cell c i j) =
        (if i \<in> set is \<and> j \<in> set [1..ny c] then unew v (cell c i j) else ucur v (cell c i j))
    \<and> uold (fold row is v) (cell c i j) =
        (if i \<in> set is \<and> j \<in> set [1..ny c] then ucur v (cell c i j) else uold v (cell c i j))"
    for "is" v
  proof (induction "is" arbitrary: v)
    case Nil
    then show ?case
      by simp
  next
    case (Cons a "is")
    then have d: "distinct is" "a \<notin> set is"
      by simp_all
    have step: "fold row (a # is) v = fold row is (row a v)"
      by simp
    show ?case
      unfolding step using Cons.IH [OF d(1), of "row a v"] row_cell [of a v] d(2) by auto
  qed
  have ua: "update_arrays c m = fold row [1..nxnom c] m"
    by (simp add: update_arrays_def row_def)
  show "unew (update_arrays c m) = unew m"
    and "ucur (update_arrays c m) (cell c i j) =
        (if 1 \<le> i \<and> i \<le> nxnom c \<and> 1 \<le> j \<and> j \<le> ny c
         then unew m (cell c i j) else ucur m (cell c i j))"
    and "uold (update_arrays c m) (cell c i j) =
        (if 1 \<le> i \<and> i \<le> nxnom c \<and> 1 \<le> j \<and> j \<le> ny c
         then ucur m (cell c i j) else uold m (cell c i j))"
    unfolding ua using gen [OF distinct_upto, of 1 "nxnom c" m] by simp_all
qed

lemma timestep_at:
  assumes "0 < gny c"
  shows "unew (timestep c m) k =
         (if 1 \<le> k div gny c \<and> k div gny c \<le> nxnom c \<and> 1 \<le> k mod gny c \<and> k mod gny c \<le> ny c
          then double_to_int (step_value c (uold m) (ucur m) (k div gny c) (k mod gny c))
          else unew m k)"
  using timestep_cell [of "k mod gny c" c m "k div gny c"] assms
  by (simp add: cell_of_offset)

lemma bootstrap_at:
  assumes "0 < gny c"
  shows "ucur (bootstrap c m) k =
         (if 1 \<le> k div gny c \<and> k div gny c \<le> nxnom c \<and> 1 \<le> k mod gny c \<and> k mod gny c \<le> nynom c
          then double_to_int (boot_value c (uold m) (k div gny c) (k mod gny c))
          else ucur m k)"
  using bootstrap_cell [of "k mod gny c" c m "k div gny c"] assms
  by (simp add: cell_of_offset)

lemma init_uold_at:
  assumes "0 < gny c"
  shows "init_uold c w u k =
         (if 1 \<le> k div gny c \<and> k div gny c \<le> nxnom c
             \<and> 1 \<le> k div gny c + gixs c w - 1 \<and> k div gny c + gixs c w - 1 \<le> nx c
             \<and> 1 \<le> k mod gny c \<and> k mod gny c \<le> ny c
          then double_to_int (gaussian (xcoord c (k div gny c + gixs c w - 1)) (ycoord c (k mod gny c)))
          else u k)"
  using init_uold_cell [of "k mod gny c" c w u "k div gny c"] assms
  by (simp add: cell_of_offset)

lemma update_arrays_at:
  assumes "0 < gny c"
  shows "unew (update_arrays c m) = unew m"
    and "ucur (update_arrays c m) k =
        (if 1 \<le> k div gny c \<and> k div gny c \<le> nxnom c \<and> 1 \<le> k mod gny c \<and> k mod gny c \<le> ny c
         then unew m k else ucur m k)"
    and "uold (update_arrays c m) k =
        (if 1 \<le> k div gny c \<and> k div gny c \<le> nxnom c \<and> 1 \<le> k mod gny c \<and> k mod gny c \<le> ny c
         then ucur m k else uold m k)"
  using update_arrays_cell(1) [of "k mod gny c" c m]
    update_arrays_cell(2) [of "k mod gny c" c m "k div gny c"]
    update_arrays_cell(3) [of "k mod gny c" c m "k div gny c"] assms
  by (simp_all add: cell_of_offset)

lemma double_to_int_eval:
  "double_to_int 0 = 0"
  "double_to_int 1 = 1"
  "double_to_int (numeral n) = numeral n"
  "double_to_int (- numeral n) = - numeral n"
  "double_to_int (- 1) = - 1"
  "double_to_int (numeral a / numeral b) = numeral a div numeral b"
  "double_to_int (- (numeral a / numeral b)) = - (numeral a div numeral b)"
  by (simp_all add: double_to_int_def ceiling_minus)

lemma step_calls_result:
  "sync_run c (step_calls c 0) (step_calls c 1) s =
   (case sync_run c (exchange_calls c 0 Uold) (exchange_calls c 1 Uold) s of
      None \<Rightarrow> None
    | Some s' \<Rightarrow> sync_run c (exchange_calls c 0 Ucur) (exchange_calls c 1 Ucur) s')"
  unfolding step_calls_def by (rule sync_run_append) (simp add: exchange_calls_def)

lemmas run_eval =
  main_run_def step_pair_def bootstrap_calls_def step_calls_result exchange_result Let_def
  block_of_def put_block_def deliver_payload
  timestep_at bootstrap_at init_uold_at update_arrays_at apply_bc_at timestep_frame
  bootstrap_frame apply_bc_frame bc_cells_def
  step_value_def boot_value_def cell_get_def
  dt_def dx_def dy_def csq_def wave_speed_def dtdx_def dtdxsq_def
  xcoord_def ycoord_def gaussian_truncates_to_zero double_to_int_eval
  upto.simps geometry grid4_def

section \<open>What the initialisation stores\<close>

text \<open>
  What the initialisation stores, on any grid: each owned interior cell receives the
  Gaussian at the coordinates the source computes for its global index, without its
  fractional part, and that is 0.
\<close>

lemma init_uold_owned_cell:
  assumes "0 \<le> nx c" and "0 \<le> w" and "1 \<le> li" and "li \<le> nxnom c"
    and "gixe c w \<le> nx c" and "1 \<le> j" and "j \<le> ny c"
  shows "cell_get c (init_uold c w u) li j =
           double_to_int (gaussian (xcoord c (gixs c w + li - 1)) (ycoord c j))"
    and "cell_get c (init_uold c w u) li j = 0"
proof -
  have g: "0 \<le> j" "j < gny c"
    using assms by (simp_all add: gny_eq)
  have "0 \<le> w * nxnom c"
    using assms(2-4) by simp
  then have r: "1 \<le> li + gixs c w - 1" "li + gixs c w - 1 \<le> nx c"
    using assms unfolding gixs_def gixe_def by linarith+
  show v: "cell_get c (init_uold c w u) li j =
      double_to_int (gaussian (xcoord c (gixs c w + li - 1)) (ycoord c j))"
    using init_uold_cell [OF g, of w u li] assms r by (simp add: cell_get_def add.commute)
  have "xcoord c (gixs c w + li - 1) \<noteq> 0"
    using xcoord_nonzero [of c "gixs c w + li - 1"] assms(1) r by (simp add: add.commute)
  then show "cell_get c (init_uold c w u) li j = 0"
    unfolding v by (rule gaussian_truncates_to_zero)
qed

section \<open>The time step\<close>

lemma step_value_five_point:
  "step_value c uo uc i j =
   2 * real_of_int (cell_get c uc i j) + real_of_int (cell_get c uo i j)
   + csq * dtdxsq c *
     (real_of_int (cell_get c uc (i + 1) j) + real_of_int (cell_get c uc (i - 1) j)
      + real_of_int (cell_get c uc i (j + 1)) + real_of_int (cell_get c uc i (j - 1))
      - 4 * real_of_int (cell_get c uc i j))"
  by (simp add: step_value_def algebra_simps)

lemma timestep_writes_owned_interior_only:
  assumes "0 \<le> j" "j < gny c" "\<not> (1 \<le> i \<and> i \<le> nxnom c \<and> 1 \<le> j \<and> j \<le> ny c)"
  shows "cell_get c (unew (timestep c m)) i j = cell_get c (unew m) i j"
  using timestep_cell [OF assms(1,2), of m i] assms(3) by (simp add: cell_get_def)

lemma timestep_stores_truncated_value:
  assumes "1 \<le> i" "i \<le> nxnom c" "1 \<le> j" "j \<le> ny c"
  shows "cell_get c (unew (timestep c m)) i j =
         double_to_int (step_value c (uold m) (ucur m) i j)"
proof -
  have "0 \<le> j" "j < gny c"
    using assms by (simp_all add: gny_eq)
  then show ?thesis
    using timestep_cell [of j c m i] assms by (simp add: cell_get_def)
qed

text \<open>
  Claim C5 says that a time step sets \<open>next[i][j]\<close>, for every owned interior cell and no
  other, to \<open>2 current + previous + c\<^sup>2 (dt/dx)\<^sup>2\<close> times the five-point Laplacian of
  \<open>current\<close>. The source evaluates exactly that expression and writes exactly those cells
  (the three lemmas above), but \<^verbatim>\<open>unew\<close> is an \<^verbatim>\<open>int\<close> block: with the shipped parameters
  \<open>c\<^sup>2 (dt/dx)\<^sup>2 = 10201/324\<close>, and where the expression is \<open>10201/324\<close> (one neighbour of
  the cell holds 1, everything else 0) the cell receives 31.
\<close>

theorem timestep_stores_31_for_10201_over_324:
  "csq * dtdxsq as_shipped = 10201 / 324
   \<and> step_value as_shipped (uold unit_pulse_mem) (ucur unit_pulse_mem) 1 1 = 10201 / 324
   \<and> cell_get as_shipped (unew (timestep as_shipped unit_pulse_mem)) 1 1 = 31"
proof -
  have cf: "csq * dtdxsq as_shipped = 10201 / 324"
    by (simp add: csq_def wave_speed_def dtdxsq_def dtdx_def dt_def dx_def as_shipped_def)
  have sv: "step_value as_shipped (uold unit_pulse_mem) (ucur unit_pulse_mem) 1 1 = 10201 / 324"
    unfolding step_value_def cf
    by (simp add: unit_pulse_mem_def cell_get_def geometry as_shipped_def)
  have "cell_get as_shipped (unew (timestep as_shipped unit_pulse_mem)) 1 1 =
        double_to_int (step_value as_shipped (uold unit_pulse_mem) (ucur unit_pulse_mem) 1 1)"
    by (rule timestep_stores_truncated_value) (simp_all add: as_shipped_def geometry)
  then show ?thesis
    using cf sv by (simp add: double_to_int_eval)
qed

section \<open>The boundary application\<close>

text \<open>
  Claim C7 says that a boundary application leaves every cell of the interface column
  unchanged (column \<open>nxLocal+1\<close> on rank 0, column 0 on rank 1). Its two corner cells
  are written: on the 4 by 4 grid, \<^verbatim>\<open>uold[3][0]\<close> of rank 0 holds 118 before and 0 after,
  and so does \<^verbatim>\<open>ucur[0][5]\<close> of rank 1, which holds 605 before.
\<close>

theorem interface_corners_are_zeroed:
  "ixe (grid4 2 2) = 3 \<and> iye (grid4 2 2) = 5
   \<and> cell_get (grid4 2 2) (uold sample_mem0) 3 0 = 118
   \<and> cell_get (grid4 2 2) (uold (apply_bc (grid4 2 2) 0 sample_mem0)) 3 0 = 0
   \<and> cell_get (grid4 2 2) (ucur sample_mem1) 0 5 = 605
   \<and> cell_get (grid4 2 2) (ucur (apply_bc (grid4 2 2) 1 sample_mem1)) 0 5 = 0"
  by (simp add: cell_get_def apply_bc_at bc_cells_def sample_mem0_def sample_mem1_def
      pattern_block_def upto.simps geometry grid4_def)

text \<open>
  Claim C7 as amended. On a grid with \<open>nxLocal \<ge> 0\<close>, for every cell \<open>(i, j)\<close> of the
  local array, ghost cells included: a boundary application sets the cell to zero, in
  the previous and in the current buffer, if it lies in row 0, in row \<open>ny+1\<close> or in the
  rank's physical edge column (column 0 on rank 0, column \<open>nxLocal+1\<close> on the other
  rank), and leaves it unchanged otherwise; the next buffer is not touched. So the two
  corner cells of the interface column are zeroed with the edge rows, and the cells of
  rows \<open>1..ny\<close> of the interface column are left unchanged.
\<close>

theorem boundary_application_effect:
  assumes "0 \<le> nxnom c" and "0 \<le> i" and "i \<le> ixe c" and "0 \<le> j" and "j \<le> iye c"
  shows "cell_get c (uold (apply_bc c w m)) i j =
           (if j = 0 \<or> j = iye c \<or> i = (if w = 0 then 0 else ixe c) then 0
            else cell_get c (uold m) i j)
         \<and> cell_get c (ucur (apply_bc c w m)) i j =
           (if j = 0 \<or> j = iye c \<or> i = (if w = 0 then 0 else ixe c) then 0
            else cell_get c (ucur m) i j)
         \<and> unew (apply_bc c w m) = unew m
         \<and> (1 \<le> j \<and> j \<le> ny c \<longrightarrow>
              cell_get c (uold (apply_bc c w m)) (if w = 0 then ixe c else 0) j =
                cell_get c (uold m) (if w = 0 then ixe c else 0) j
              \<and> cell_get c (ucur (apply_bc c w m)) (if w = 0 then ixe c else 0) j =
                cell_get c (ucur m) (if w = 0 then ixe c else 0) j)"
proof -
  have mem: "cell c i j \<in> set (bc_cells c w) \<longleftrightarrow>
      j = 0 \<or> j = iye c \<or> i = (if w = 0 then 0 else ixe c)"
    using bc_cells_member [OF assms(2-5), of w] by auto
  have e: "0 \<le> ixe c" "ixe c \<noteq> 0"
    using assms(1) by (simp_all add: ixe_eq)
  have inner: "cell c (if w = 0 then ixe c else 0) j \<notin> set (bc_cells c w)"
    if "1 \<le> j" "j \<le> ny c"
  proof (cases "w = 0")
    case True
    then show ?thesis
      using bc_cells_member [of "ixe c" c j w] e that assms(5) by (simp add: iye_eq)
  next
    case False
    then show ?thesis
      using bc_cells_member [of 0 c j w] e that assms(5) by (simp add: iye_eq)
  qed
  show ?thesis
    using mem inner by (simp add: cell_get_def apply_bc_at apply_bc_frame)
qed

theorem boundary_application_effect_witness:
  "0 \<le> nxnom (grid4 2 2) \<and> (0::int) \<le> 3 \<and> 3 \<le> ixe (grid4 2 2)
   \<and> (0::int) \<le> 2 \<and> 2 \<le> iye (grid4 2 2)
   \<and> cell_get (grid4 2 2) (uold (apply_bc (grid4 2 2) 0 sample_mem0)) 3 2 = 120
   \<and> cell_get (grid4 2 2) (ucur (apply_bc (grid4 2 2) 0 sample_mem0)) 3 2 = 220
   \<and> cell_get (grid4 2 2) (uold (apply_bc (grid4 2 2) 0 sample_mem0)) 0 2 = 0
   \<and> cell_get (grid4 2 2) (uold sample_mem0) 0 2 = 102"
proof -
  have h: "0 \<le> nxnom (grid4 2 2)" "3 \<le> ixe (grid4 2 2)" "2 \<le> iye (grid4 2 2)"
    "0 \<le> ixe (grid4 2 2)"
    by (simp_all add: geometry grid4_def)
  have v: "ixe (grid4 2 2) = 3" "iye (grid4 2 2) = 5" "ny (grid4 2 2) = 4"
    by (simp_all add: geometry grid4_def)
  have old: "cell_get (grid4 2 2) (uold sample_mem0) 3 2 = 120"
    "cell_get (grid4 2 2) (ucur sample_mem0) 3 2 = 220"
    "cell_get (grid4 2 2) (uold sample_mem0) 0 2 = 102"
    by (simp_all add: cell_get_def sample_mem0_def pattern_block_def geometry grid4_def)
  have a: "cell_get (grid4 2 2) (uold (apply_bc (grid4 2 2) 0 sample_mem0)) 3 2 = 120
      \<and> cell_get (grid4 2 2) (ucur (apply_bc (grid4 2 2) 0 sample_mem0)) 3 2 = 220"
    using boundary_application_effect [OF h(1) _ h(2) _ h(3), of 0 sample_mem0] v old
    by simp
  have b: "cell_get (grid4 2 2) (uold (apply_bc (grid4 2 2) 0 sample_mem0)) 0 2 = 0"
    using boundary_application_effect [OF h(1) _ h(4) _ h(3), of 0 sample_mem0] v
    by simp
  show ?thesis
    using h a b old by simp
qed

section \<open>The ghost exchange\<close>

text \<open>
  What one exchange of a block does when a transferred element covers one cell: the
  ghost column of each rank receives rows \<open>0..ny-1\<close> of the other rank's interface-side
  interior column, and rows \<open>ny\<close> and \<open>ny+1\<close> of the ghost column keep their contents.
\<close>

lemma exchange_rows_one_cell_per_element:
  assumes "cells_per_double c = 1" and "0 \<le> r" and "r \<le> ny c + 1"
  shows "\<exists>m0' m1'.
           sync_run c (exchange_calls c 0 Uold) (exchange_calls c 1 Uold) (m0, m1) = Some (m0', m1')
           \<and> cell_get c (uold m0') (ixe c) r =
               (if r < ny c then cell_get c (uold m1) 1 r else cell_get c (uold m0) (ixe c) r)
           \<and> cell_get c (uold m1') 0 r =
               (if r < ny c then cell_get c (uold m0) (ixem c) r else cell_get c (uold m1) 0 r)"
proof -
  have g: "gny c = ny c + 2"
    by (rule gny_eq)
  show ?thesis
    using assms
    by (simp add: exchange_result Let_def block_of_def put_block_def deliver_payload
        cell_get_def cell_def g)
qed

lemmas exchange_eval =
  exchange_result Let_def block_of_def put_block_def deliver_payload cell_get_def
  sample_mem0_def sample_mem1_def pattern_block_def geometry grid4_def

text \<open>
  Claim C4 says that after an exchange, for every row \<open>r\<close> in \<open>1..ny\<close>, the ghost cell of
  rank 0 in column \<open>nxLocal+1\<close> equals the cell of rank 1 in column 1 before the
  exchange, and the ghost cell of rank 1 in column 0 equals the cell of rank 0 in column
  \<open>nxLocal\<close> before the exchange, and that the payload is rows \<open>1..ny\<close> without the ghost
  rows. Every send and receive starts at \<^verbatim>\<open>&u[column][0]\<close>, row 0. On the 4 by 4 grid,
  between two memories whose cells all differ:
  \<^item> with one cell per transferred element, row 4 of both ghost columns keeps its old
    value (122 on rank 0, where rank 1 has 510 in column 1; 504 on rank 1, where rank 0
    has 116 in column 2), and the ghost-row cells \<^verbatim>\<open>[0][0]\<close> of rank 1 and \<^verbatim>\<open>[3][0]\<close> of
    rank 0 are overwritten with the sender's row 0 (112 and 506);
  \<^item> with two cells per transferred element, a message covers 8 cells: the receive of
    rank 1 runs on into its interior cell \<^verbatim>\<open>[1][1]\<close>, which becomes 119, the old ghost
    value of rank 0, before rank 1 sends it; so the ghost cell \<^verbatim>\<open>[3][1]\<close> of rank 0 ends
    as 119, where rank 1 had 507, and \<^verbatim>\<open>[0][0]\<close> of rank 1 is overwritten with 112.
\<close>

theorem exchange_starts_at_ghost_row:
  "map_option
     (\<lambda>(m0, m1). [cell_get (grid4 2 1) (uold m0) 3 4, cell_get (grid4 2 1) (uold m1) 0 4,
                  cell_get (grid4 2 1) (uold m1) 0 0, cell_get (grid4 2 1) (uold m0) 3 0])
     (sync_run (grid4 2 1) (exchange_calls (grid4 2 1) 0 Uold)
        (exchange_calls (grid4 2 1) 1 Uold) (sample_mem0, sample_mem1))
     = Some [122, 504, 112, 506]
   \<and> cell_get (grid4 2 1) (uold sample_mem1) 1 4 = 510
   \<and> cell_get (grid4 2 1) (uold sample_mem0) 2 4 = 116
   \<and> map_option
     (\<lambda>(m0, m1). [cell_get (grid4 2 2) (uold m0) 3 1, cell_get (grid4 2 2) (uold m1) 1 1,
                  cell_get (grid4 2 2) (uold m1) 0 0])
     (sync_run (grid4 2 2) (exchange_calls (grid4 2 2) 0 Uold)
        (exchange_calls (grid4 2 2) 1 Uold) (sample_mem0, sample_mem1))
     = Some [119, 119, 112]
   \<and> cell_get (grid4 2 2) (uold sample_mem1) 1 1 = 507"
  by (simp add: exchange_eval)

section \<open>The whole run\<close>

text \<open>A run that starts from memory holding 0 everywhere leaves 0 everywhere.\<close>

lemma init_uold_zero:
  assumes "0 \<le> nx c" "0 \<le> ny c"
  shows "init_uold c w (\<lambda>k. 0) = (\<lambda>k. 0)"
proof
  fix k
  have g: "0 < gny c"
    using assms by (simp add: gny_eq)
  show "init_uold c w (\<lambda>k. 0) k = 0"
    using assms by (simp add: init_uold_at [OF g] gaussian_truncates_to_zero xcoord_nonzero)
qed

lemma deliver_zero: "deliver (\<lambda>k. 0) a (payload c (\<lambda>k. 0) s n) = (\<lambda>k. 0)"
  by (rule ext) (simp add: deliver_payload)

lemma exchange_zero:
  "sync_run c (exchange_calls c 0 b) (exchange_calls c 1 b) (zero_mem, zero_mem) =
   Some (zero_mem, zero_mem)"
  by (cases b) (simp_all add: exchange_result Let_def block_of_def put_block_def zero_mem_def
      deliver_zero)

lemma bootstrap_zero:
  assumes "0 \<le> ny c"
  shows "bootstrap c zero_mem = zero_mem"
proof -
  have g: "0 < gny c"
    using assms by (simp add: gny_eq)
  have "ucur (bootstrap c zero_mem) = (\<lambda>k. 0)"
    by (rule ext)
      (simp add: bootstrap_at [OF g] boot_value_def cell_get_def zero_mem_def double_to_int_eval)
  then show ?thesis
    by (simp add: bootstrap_def zero_mem_def)
qed

lemma apply_bc_zero: "apply_bc c w zero_mem = zero_mem"
proof -
  have "zero_cells ks (\<lambda>k. 0) = (\<lambda>k. 0)" for ks
    by (rule ext) (simp add: zero_cells_at)
  then show ?thesis
    by (simp add: apply_bc_def zero_mem_def)
qed

lemma timestep_zero:
  assumes "0 \<le> ny c"
  shows "timestep c zero_mem = zero_mem"
proof -
  have g: "0 < gny c"
    using assms by (simp add: gny_eq)
  have "unew (timestep c zero_mem) = (\<lambda>k. 0)"
    by (rule ext)
      (simp add: timestep_at [OF g] step_value_def cell_get_def zero_mem_def double_to_int_eval)
  then show ?thesis
    by (simp add: timestep_def zero_mem_def)
qed

lemma update_arrays_zero:
  assumes "0 \<le> ny c"
  shows "update_arrays c zero_mem = zero_mem"
proof -
  have g: "0 < gny c"
    using assms by (simp add: gny_eq)
  have "unew (update_arrays c zero_mem) = (\<lambda>k. 0)"
    "ucur (update_arrays c zero_mem) = (\<lambda>k. 0)"
    "uold (update_arrays c zero_mem) = (\<lambda>k. 0)"
    by (simp add: update_arrays_at(1) [OF g] zero_mem_def,
        (rule ext, simp add: update_arrays_at [OF g] zero_mem_def)+)
  then show ?thesis
    by (cases "update_arrays c zero_mem") (simp add: zero_mem_def)
qed

lemma step_pair_zero:
  "0 \<le> ny c \<Longrightarrow> step_pair c (zero_mem, zero_mem) = Inr (zero_mem, zero_mem)"
  by (simp add: step_pair_def step_calls_result exchange_zero apply_bc_zero timestep_zero
      update_arrays_zero)

lemma time_loop_zero:
  "0 \<le> ny c \<Longrightarrow> time_loop c ks (zero_mem, zero_mem) = Inr (zero_mem, zero_mem)"
  by (induction ks) (simp_all add: step_pair_zero)

lemma zero_memory_stays_zero:
  assumes "0 \<le> nx c" "0 \<le> ny c" "nsteps c \<noteq> 1"
  shows "main_run c (zero_mem, zero_mem) = Inr (zero_mem, zero_mem)"
proof -
  have i: "zero_mem\<lparr>uold := init_uold c w (uold zero_mem)\<rparr> = zero_mem" for w
    using init_uold_zero [OF assms(1,2), of w] by (simp add: zero_mem_def)
  show ?thesis
    using assms(2,3)
    by (simp add: main_run_def i bootstrap_calls_def exchange_zero bootstrap_zero time_loop_zero)
qed

text \<open>
  Claim C1 says that for \<open>nx = ny = 4\<close> and one time step the interior values of the two
  ranks, stitched by global column, equal those of a single-process reference with the
  same initialisation and recurrence. Such a reference is determined by the grid, the
  step count and the formulas. The run of the source is not: the start step (lines 118
  to 125) reads the edge cells \<^verbatim>\<open>uold[0][j]\<close> and \<^verbatim>\<open>uold[i][0]\<close> before any boundary
  application has written them (the first one is inside the time loop), and \<^verbatim>\<open>malloc\<close>
  leaves them indeterminate. On the 4 by 4 grid, with one pass of the time loop
  (\<open>nsteps = 0\<close>, so \<open>dt = -1\<close> and \<open>c\<^sup>2 (dt/dx)\<^sup>2 = 25/4\<close>):
  \<^item> from memory that holds 0 everywhere the run ends with 0 in every cell;
  \<^item> if only \<^verbatim>\<open>uold[0][1]\<close> of rank 0 holds 8 instead, the run ends with \<open>-575\<close>, 156
    and 156 in the interior cells \<^verbatim>\<open>[1][1]\<close>, \<^verbatim>\<open>[2][1]\<close>, \<^verbatim>\<open>[1][2]\<close> of rank 0, with two
    cells per transferred element as with one.
  With \<open>nsteps = 1\<close> the source divides by zero in \<open>dt\<close> and no cell value is defined.
\<close>

theorem run_depends_on_stale_memory:
  "main_run (grid4 0 2) (zero_mem, zero_mem) = Inr (zero_mem, zero_mem)
   \<and> (case main_run (grid4 0 2) (stale_mem, zero_mem) of
         Inl e \<Rightarrow> None
       | Inr (m0, m1) \<Rightarrow>
           Some [cell_get (grid4 0 2) (ucur m0) 1 1, cell_get (grid4 0 2) (ucur m0) 2 1,
                 cell_get (grid4 0 2) (ucur m0) 1 2]) = Some [- 575, 156, 156]
   \<and> (case main_run (grid4 0 1) (stale_mem, zero_mem) of
         Inl e \<Rightarrow> None
       | Inr (m0, m1) \<Rightarrow>
           Some [cell_get (grid4 0 1) (ucur m0) 1 1, cell_get (grid4 0 1) (ucur m0) 2 1,
                 cell_get (grid4 0 1) (ucur m0) 1 2]) = Some [- 575, 156, 156]
   \<and> main_run (grid4 1 2) (zero_mem, zero_mem) = Inl NanToInt"
proof -
  have a: "main_run (grid4 0 2) (zero_mem, zero_mem) = Inr (zero_mem, zero_mem)"
    by (rule zero_memory_stays_zero) (simp_all add: grid4_def)
  have b: "(case main_run (grid4 0 2) (stale_mem, zero_mem) of
         Inl e \<Rightarrow> None
       | Inr (m0, m1) \<Rightarrow>
           Some [cell_get (grid4 0 2) (ucur m0) 1 1, cell_get (grid4 0 2) (ucur m0) 2 1,
                 cell_get (grid4 0 2) (ucur m0) 1 2]) = Some [- 575, 156, 156]"
    by (simp add: run_eval zero_mem_def stale_mem_def)
  have c: "(case main_run (grid4 0 1) (stale_mem, zero_mem) of
         Inl e \<Rightarrow> None
       | Inr (m0, m1) \<Rightarrow>
           Some [cell_get (grid4 0 1) (ucur m0) 1 1, cell_get (grid4 0 1) (ucur m0) 2 1,
                 cell_get (grid4 0 1) (ucur m0) 1 2]) = Some [- 575, 156, 156]"
    by (simp add: run_eval zero_mem_def stale_mem_def)
  have d: "main_run (grid4 1 2) (zero_mem, zero_mem) = Inl NanToInt"
    by (simp add: main_run_def geometry grid4_def)
  show ?thesis
    using a b c d by (intro conjI)
qed

text \<open>
  The same with \<open>nsteps = 2\<close>, where \<open>dt = 1\<close> and the time loop makes three passes: the
  one stale cell changes \<^verbatim>\<open>ucur[1][1]\<close> of rank 0 from 0 to \<open>-439937\<close>.
\<close>

lemma three_passes_depend_on_stale_memory:
  "main_run (grid4 2 2) (zero_mem, zero_mem) = Inr (zero_mem, zero_mem)
   \<and> (case main_run (grid4 2 2) (stale_mem, zero_mem) of
         Inl e \<Rightarrow> None
       | Inr (m0, m1) \<Rightarrow> Some (cell_get (grid4 2 2) (ucur m0) 1 1)) = Some (- 439937)"
proof -
  have a: "main_run (grid4 2 2) (zero_mem, zero_mem) = Inr (zero_mem, zero_mem)"
    by (rule zero_memory_stays_zero) (simp_all add: grid4_def)
  have b: "(case main_run (grid4 2 2) (stale_mem, zero_mem) of
         Inl e \<Rightarrow> None
       | Inr (m0, m1) \<Rightarrow> Some (cell_get (grid4 2 2) (ucur m0) 1 1)) = Some (- 439937)"
    by (simp add: run_eval zero_mem_def stale_mem_def)
  show ?thesis
    using a b by (intro conjI)
qed

text \<open>No run ends blocked in an exchange.\<close>

lemma step_pair_completes: "\<exists>s'. step_pair c s = Inr s'"
  by (cases s)
    (simp add: step_pair_def step_calls_result exchange_result Let_def split: prod.splits)

lemma time_loop_completes: "\<exists>s'. time_loop c ks s = Inr s'"
proof (induction ks arbitrary: s)
  case Nil
  then show ?case
    by simp
next
  case (Cons k ks)
  obtain s1 where "step_pair c s = Inr s1"
    using step_pair_completes by blast
  then show ?case
    using Cons [of s1] by simp
qed

lemma main_run_never_deadlocks: "main_run c s \<noteq> Inl Deadlock"
proof (cases s)
  case (Pair m0 m1)
  show ?thesis
  proof (cases "nsteps c = 1 \<and> 1 \<le> nxnom c \<and> 1 \<le> nynom c")
    case True
    then show ?thesis
      by (simp add: main_run_def Pair)
  next
    case False
    obtain a where a: "sync_run c (bootstrap_calls c 0) (bootstrap_calls c 1)
        (m0\<lparr>uold := init_uold c 0 (uold m0)\<rparr>, m1\<lparr>uold := init_uold c 1 (uold m1)\<rparr>) = Some a"
      by (simp add: bootstrap_calls_def exchange_result Let_def)
    obtain a0 a1 where p: "a = (a0, a1)"
      by (cases a)
    obtain s' where "time_loop c [0..nsteps c] (bootstrap c a0, bootstrap c a1) = Inr s'"
      using time_loop_completes by blast
    then show ?thesis
      using False a p by (simp add: main_run_def Pair)
  qed
qed

end
